theory Spec2Isabelle
  imports Complex_Main
begin

section \<open>Text: character classes and \<open>str.strip\<close>\<close>

text \<open>
  The filter text is modelled as an ASCII string. \<open>is_space\<close> is what Python's
  \<open>str.strip()\<close> removes and what \<open>\s\<close> matches on ASCII text (tab, line feed,
  vertical tab, form feed, carriage return, the separators 28 to 31 and the blank);
  \<open>is_word\<close> is \<open>\w\<close> and \<open>is_digit\<close> is \<open>\d\<close>.
\<close>

definition is_space :: "char \<Rightarrow> bool" where
  "is_space c = (let n = (of_char c :: nat) in n = 32 \<or> (9 \<le> n \<and> n \<le> 13) \<or> (28 \<le> n \<and> n \<le> 31))"

definition is_digit :: "char \<Rightarrow> bool" where
  "is_digit c = (let n = (of_char c :: nat) in 48 \<le> n \<and> n \<le> 57)"

definition is_word :: "char \<Rightarrow> bool" where
  "is_word c = (let n = (of_char c :: nat) in
     (48 \<le> n \<and> n \<le> 57) \<or> (65 \<le> n \<and> n \<le> 90) \<or> n = 95 \<or> (97 \<le> n \<and> n \<le> 122))"

definition strip :: "string \<Rightarrow> string" where
  "strip s = rev (dropWhile is_space (rev (dropWhile is_space s)))"

section \<open>The regular expressions of \<open>parse_condition\<close>\<close>

text \<open>
  The five patterns of \<open>parse_condition\<close> are sequences of literals, alternations of
  literals and greedy repetitions of one character class, some of them capturing groups.
  \<open>re_match\<close> is \<open>re.match\<close> on that fragment: it matches at the start of the text,
  tries the candidates of every item in the backtracking order of Python's engine (a
  greedy repetition from the longest run down to its minimum, an alternation from left
  to right) and returns the groups of the first complete match.
\<close>

datatype atom = AWord | ASpace | ADigit | AChar char | ANotNewline

fun in_atom :: "atom \<Rightarrow> char \<Rightarrow> bool" where
  "in_atom AWord c = is_word c"
| "in_atom ASpace c = is_space c"
| "in_atom ADigit c = is_digit c"
| "in_atom (AChar d) c = (c = d)"
| "in_atom ANotNewline c = (c \<noteq> CHR 0x0A)"

definition in_class :: "atom list \<Rightarrow> char \<Rightarrow> bool" where
  "in_class as c = list_ex (\<lambda>a. in_atom a c) as"

datatype rx = Lit string | Alt "string list" | Rep "atom list" nat

definition starts_with :: "string \<Rightarrow> string \<Rightarrow> bool" where
  "starts_with l s = (take (length l) s = l)"

fun cands :: "rx \<Rightarrow> string \<Rightarrow> nat list" where
  "cands (Lit l) s = (if starts_with l s then [length l] else [])"
| "cands (Alt ls) s = map length (filter (\<lambda>l. starts_with l s) ls)"
| "cands (Rep as n) s = rev [n ..< Suc (length (takeWhile (in_class as) s))]"

fun first_some :: "('a \<Rightarrow> 'b option) \<Rightarrow> 'a list \<Rightarrow> 'b option" where
  "first_some f [] = None"
| "first_some f (x # xs) = (case f x of Some y \<Rightarrow> Some y | None \<Rightarrow> first_some f xs)"

type_synonym pattern = "(bool \<times> rx) list"

primrec re_match :: "pattern \<Rightarrow> string \<Rightarrow> string list option" where
  "re_match [] s = Some []"
| "re_match (p # ps) s =
     first_some
       (\<lambda>k. case re_match ps (drop k s) of
              None \<Rightarrow> None
            | Some gs \<Rightarrow> Some (if fst p then take k s # gs else gs))
       (cands (snd p) s)"

text \<open>\<open>(\w+)\s*!=\s*([\d\., ]+)\<close>\<close>

definition rx_exclude :: pattern where
  "rx_exclude =
     [(True, Rep [AWord] 1), (False, Rep [ASpace] 0), (False, Lit ''!=''), (False, Rep [ASpace] 0),
      (True, Rep [ADigit, AChar CHR ''.'', AChar CHR '','', AChar CHR '' ''] 1)]"

text \<open>\<open>(\w+)\s*=\s*([\d\., ]+)\<close>\<close>

definition rx_include :: pattern where
  "rx_include =
     [(True, Rep [AWord] 1), (False, Rep [ASpace] 0), (False, Lit ''=''), (False, Rep [ASpace] 0),
      (True, Rep [ADigit, AChar CHR ''.'', AChar CHR '','', AChar CHR '' ''] 1)]"

text \<open>\<open>([\d\.]+)\s*<=\s*(\w+)\s*<=\s*([\d\.]+)\<close>\<close>

definition rx_range :: pattern where
  "rx_range =
     [(True, Rep [ADigit, AChar CHR ''.''] 1), (False, Rep [ASpace] 0), (False, Lit ''<=''),
      (False, Rep [ASpace] 0), (True, Rep [AWord] 1), (False, Rep [ASpace] 0), (False, Lit ''<=''),
      (False, Rep [ASpace] 0), (True, Rep [ADigit, AChar CHR ''.''] 1)]"

text \<open>\<open>(\w+)\s*(>=|<=|=|!=|>|<)\s*([\d\.]+)\<close>\<close>

definition rx_compare :: pattern where
  "rx_compare =
     [(True, Rep [AWord] 1), (False, Rep [ASpace] 0),
      (True, Alt [''>='', ''<='', ''='', ''!='', ''>'', ''<'']), (False, Rep [ASpace] 0),
      (True, Rep [ADigit, AChar CHR ''.''] 1)]"

text \<open>\<open>(\w+)\s*=\s*(.+)\<close>\<close>

definition rx_equal :: pattern where
  "rx_equal =
     [(True, Rep [AWord] 1), (False, Rep [ASpace] 0), (False, Lit ''=''), (False, Rep [ASpace] 0),
      (True, Rep [ANotNewline] 1)]"

text \<open>The classes \<open>[\d\.]\<close> and \<open>[\d\., ]\<close>.\<close>

definition num_char :: "char \<Rightarrow> bool" where
  "num_char c = (is_digit c \<or> c = CHR ''.'')"

definition list_char :: "char \<Rightarrow> bool" where
  "list_char c = (is_digit c \<or> c = CHR ''.'' \<or> c = CHR '','' \<or> c = CHR '' '')"

text \<open>A match needs every character of the pattern's literals.\<close>

fun lit_count :: "char \<Rightarrow> pattern \<Rightarrow> nat" where
  "lit_count x [] = 0"
| "lit_count x ((cap, Lit l) # ps) = count_list l x + lit_count x ps"
| "lit_count x ((cap, r) # ps) = lit_count x ps"

section \<open>\<open>float\<close> on the text of a numeric group\<close>

text \<open>
  The texts passed to \<open>float\<close> come from groups of digits, dots, commas and blanks, split
  at the commas and stripped. On such a text \<open>float\<close> succeeds exactly when the text is
  digits with at most one dot and at least one digit; anything else raises ValueError
  (\<open>None\<close>). Numbers are modelled as exact rationals; the rounding of a double is not
  modelled.
\<close>

definition digits_val :: "string \<Rightarrow> nat" where
  "digits_val ds = foldl (\<lambda>a c. 10 * a + (of_char c - 48)) 0 ds"

definition py_float :: "string \<Rightarrow> rat option" where
  "py_float s =
     (let t = strip s; ip = takeWhile is_digit t; r = dropWhile is_digit t;
          fp = (if r = [] then [] else tl r)
      in if list_all is_digit fp \<and> (r = [] \<or> hd r = CHR ''.'') \<and> (ip \<noteq> [] \<or> fp \<noteq> [])
         then Some (of_nat (digits_val ip) + of_nat (digits_val fp) / 10 ^ length fp)
         else None)"

fun split_comma :: "string \<Rightarrow> string list" where
  "split_comma [] = [[]]"
| "split_comma (c # cs) =
     (if c = CHR '','' then [] # split_comma cs
      else (c # hd (split_comma cs)) # tl (split_comma cs))"

text \<open>\<open>[float(v.strip()) for v in vals.split(",")]\<close>: the first failure raises.\<close>

definition float_list :: "string \<Rightarrow> rat list option" where
  "float_list vals = those (map (\<lambda>v. py_float (strip v)) (split_comma vals))"

section \<open>Datasets, columns and masks\<close>

text \<open>
  A cell of a column is a number, a text, a boolean or missing (NaN). A DataFrame is its
  row labels (\<open>df.index\<close>) and its named columns; a Series is a list of labelled values.
  A frame read from a CSV file has the labels \<open>0, 1, ..., n - 1\<close>; a frame selected from
  it by a mask keeps the labels of the rows it keeps.
\<close>

datatype cell = Number rat | Text string | Boolean bool | Missing

type_synonym 'a series = "(nat \<times> 'a) list"

record dataframe =
  df_index :: "nat list"
  df_columns :: "(string \<times> cell list) list"

datatype error = ValueError | KeyError | IndexingError

text \<open>
  Two functions of the pandas library are parameters of the model: how
  \<open>pd.to_numeric\<close> reads a text cell (\<open>None\<close> when it cannot, which \<open>errors='coerce'\<close>
  turns into NaN) and how \<open>astype(str)\<close> prints a number.
\<close>

record pd =
  text_to_number :: "string \<Rightarrow> rat option"
  number_to_text :: "rat \<Rightarrow> string"

definition nrows :: "dataframe \<Rightarrow> nat" where
  "nrows df = length (df_index df)"

text \<open>\<open>pd.Series([v] * n)\<close>: a fresh Series, labelled \<open>0 .. n - 1\<close>.\<close>

definition const_series :: "nat \<Rightarrow> 'a \<Rightarrow> 'a series" where
  "const_series n v = map (\<lambda>i. (i, v)) [0 ..< n]"

text \<open>\<open>df[col]\<close>, for a column that exists: its values under the labels of the frame.\<close>

definition getitem :: "dataframe \<Rightarrow> string \<Rightarrow> cell series option" where
  "getitem df col = map_option (zip (df_index df)) (map_of (df_columns df) col)"

text \<open>\<open>df[col] = values\<close>, for a column that exists: replaced in place.\<close>

definition setitem :: "dataframe \<Rightarrow> string \<Rightarrow> cell list \<Rightarrow> dataframe" where
  "setitem df col vs =
     df\<lparr>df_columns := map (\<lambda>(c, old). if c = col then (c, vs) else (c, old)) (df_columns df)\<rparr>"

definition smap :: "('a \<Rightarrow> 'b) \<Rightarrow> 'a series \<Rightarrow> 'b series" where
  "smap f s = map (\<lambda>(l, v). (l, f v)) s"

text \<open>
  \<open>a | b\<close> and \<open>a & b\<close> on boolean Series. With the same labels the operation is
  elementwise. Otherwise pandas aligns both sides on the sorted union of the labels; a
  label the left side lacks gives False, and a label the right side lacks is read as
  False there.
\<close>

definition align_op :: "(bool \<Rightarrow> bool \<Rightarrow> bool) \<Rightarrow> bool series \<Rightarrow> bool series \<Rightarrow> bool series" where
  "align_op f a b =
     (if map fst a = map fst b then map (\<lambda>((l, x), (_, y)). (l, f x y)) (zip a b)
      else map (\<lambda>l. (l, case map_of a l of
                          None \<Rightarrow> False
                        | Some x \<Rightarrow> (case map_of b l of None \<Rightarrow> f x False | Some y \<Rightarrow> f x y)))
             (sort (remdups (map fst a @ map fst b))))"

definition series_or :: "bool series \<Rightarrow> bool series \<Rightarrow> bool series" where
  "series_or = align_op (\<or>)"

definition series_and :: "bool series \<Rightarrow> bool series \<Rightarrow> bool series" where
  "series_and = align_op (\<and>)"

definition series_not :: "bool series \<Rightarrow> bool series" where
  "series_not = smap Not"

definition all_false :: "dataframe \<Rightarrow> bool series" where
  "all_false df = const_series (nrows df) False"

definition select :: "bool list \<Rightarrow> 'a list \<Rightarrow> 'a list" where
  "select ks xs = map snd (filter fst (zip ks xs))"

text \<open>
  \<open>df[mask]\<close>: the rows whose mask value is True, with their labels. A mask with other
  labels than the frame is first reindexed to the frame's labels, and a label of the
  frame that the mask lacks raises IndexingError.
\<close>

definition getitem_mask :: "dataframe \<Rightarrow> bool series \<Rightarrow> error + dataframe" where
  "getitem_mask df m =
     (case (if map fst m = df_index df then Some (map snd m)
            else those (map (map_of m) (df_index df))) of
        None \<Rightarrow> Inl IndexingError
      | Some ks \<Rightarrow>
          Inr \<lparr>df_index = select ks (df_index df),
               df_columns = map (\<lambda>(c, vs). (c, select ks vs)) (df_columns df)\<rparr>)"

subsection \<open>Cells under the pandas operations\<close>

text \<open>
  \<open>pd.to_numeric(column, errors='coerce')\<close>: a boolean column is returned as it is; in any
  other column a boolean becomes 1 or 0, a text becomes the number it reads as or NaN.
\<close>

fun is_boolean :: "cell \<Rightarrow> bool" where
  "is_boolean (Boolean b) = True"
| "is_boolean c = False"

fun coerce :: "pd \<Rightarrow> cell \<Rightarrow> cell" where
  "coerce P (Number x) = Number x"
| "coerce P (Text s) = (case text_to_number P s of None \<Rightarrow> Missing | Some x \<Rightarrow> Number x)"
| "coerce P (Boolean b) = Number (of_bool b)"
| "coerce P Missing = Missing"

definition to_numeric :: "pd \<Rightarrow> cell list \<Rightarrow> cell list" where
  "to_numeric P vs = (if list_all is_boolean vs then vs else map (coerce P) vs)"

text \<open>The number a cell of a numeric column is compared as; \<open>None\<close> is NaN.\<close>

fun cell_num :: "cell \<Rightarrow> rat option" where
  "cell_num (Number x) = Some x"
| "cell_num (Boolean b) = Some (of_bool b)"
| "cell_num c = None"

text \<open>An ordering comparison or \<open>==\<close> with NaN is False; \<open>!=\<close> is its negation.\<close>

definition num_test :: "(rat \<Rightarrow> bool) \<Rightarrow> cell \<Rightarrow> bool" where
  "num_test p c = (case cell_num c of None \<Rightarrow> False | Some x \<Rightarrow> p x)"

text \<open>\<open>isin(val_list)\<close> on one cell: equality of Python values, so True is 1, a text is no number.\<close>

fun cell_isin :: "rat list \<Rightarrow> cell \<Rightarrow> bool" where
  "cell_isin vl (Number x) = (x \<in> set vl)"
| "cell_isin vl (Boolean b) = (of_bool b \<in> set vl)"
| "cell_isin vl c = False"

text \<open>\<open>astype(str)\<close> on one cell.\<close>

fun cell_str :: "pd \<Rightarrow> cell \<Rightarrow> string" where
  "cell_str P (Number x) = number_to_text P x"
| "cell_str P (Text s) = s"
| "cell_str P (Boolean b) = (if b then ''True'' else ''False'')"
| "cell_str P Missing = ''nan''"

section \<open>\<open>parse_condition\<close>\<close>

text \<open>
  Every function that receives the working frame returns it with its result: a range or
  a comparison stores the coerced column in the frame (\<open>df[col] = pd.to_numeric(...)\<close>),
  and later conditions read the stored column. ValueError is what \<open>float\<close> raises.
\<close>

type_synonym outcome = "(error + bool series) \<times> dataframe"

text \<open>Lines 64 to 70: \<open>col != v1, v2, ...\<close>.\<close>

definition exclude_list :: "dataframe \<Rightarrow> string \<Rightarrow> string \<Rightarrow> outcome" where
  "exclude_list df col vals =
     (case getitem df col of
        None \<Rightarrow> (Inr (all_false df), df)
      | Some s \<Rightarrow>
          (case float_list vals of
             None \<Rightarrow> (Inl ValueError, df)
           | Some val_list \<Rightarrow> (Inr (series_not (smap (cell_isin val_list) s)), df)))"

text \<open>Lines 73 to 79: \<open>col = v1, v2, ...\<close>.\<close>

definition include_list :: "dataframe \<Rightarrow> string \<Rightarrow> string \<Rightarrow> outcome" where
  "include_list df col vals =
     (case getitem df col of
        None \<Rightarrow> (Inr (all_false df), df)
      | Some s \<Rightarrow>
          (case float_list vals of
             None \<Rightarrow> (Inl ValueError, df)
           | Some val_list \<Rightarrow> (Inr (smap (cell_isin val_list) s), df)))"

text \<open>The coerced column, stored in the frame and read back.\<close>

definition coerce_column :: "pd \<Rightarrow> dataframe \<Rightarrow> string \<Rightarrow> cell list \<Rightarrow> dataframe \<times> cell series" where
  "coerce_column P df col vs =
     (let vs' = to_numeric P vs in (setitem df col vs', zip (df_index df) vs'))"

text \<open>Lines 82 to 88: \<open>a <= col <= b\<close>. Both bounds are converted before the column is looked up.\<close>

definition range_condition :: "pd \<Rightarrow> dataframe \<Rightarrow> string \<Rightarrow> string \<Rightarrow> string \<Rightarrow> outcome" where
  "range_condition P df lo col hi =
     (case py_float lo of
        None \<Rightarrow> (Inl ValueError, df)
      | Some val1 \<Rightarrow>
          (case py_float hi of
             None \<Rightarrow> (Inl ValueError, df)
           | Some val2 \<Rightarrow>
               (case map_of (df_columns df) col of
                  None \<Rightarrow> (Inr (all_false df), df)
                | Some vs \<Rightarrow>
                    (let (df', s) = coerce_column P df col vs
                     in (Inr (series_and (smap (num_test (\<lambda>x. x \<ge> val1)) s)
                                         (smap (num_test (\<lambda>x. x \<le> val2)) s)), df')))))"

text \<open>Lines 105 to 112: \<open>col = text\<close>, and the all-false mask when nothing matches.\<close>

definition equal_condition :: "pd \<Rightarrow> dataframe \<Rightarrow> string \<Rightarrow> outcome" where
  "equal_condition P df cond =
     (case re_match rx_equal cond of
        None \<Rightarrow> (Inr (all_false df), df)
      | Some gs \<Rightarrow>
          (case getitem df (gs ! 0) of
             None \<Rightarrow> (Inr (all_false df), df)
           | Some s \<Rightarrow> (Inr (smap (\<lambda>c. cell_str P c = strip (gs ! 1)) s), df)))"

text \<open>
  Lines 91 to 102: \<open>col op value\<close>. The value is converted before the column is looked
  up; an operator that is none of the six falls through to the next pattern.
\<close>

definition compare_condition ::
  "pd \<Rightarrow> dataframe \<Rightarrow> string \<Rightarrow> string \<Rightarrow> string \<Rightarrow> string \<Rightarrow> outcome" where
  "compare_condition P df cond col op valt =
     (case py_float valt of
        None \<Rightarrow> (Inl ValueError, df)
      | Some val \<Rightarrow>
          (case map_of (df_columns df) col of
             None \<Rightarrow> (Inr (all_false df), df)
           | Some vs \<Rightarrow>
               (let (df', s) = coerce_column P df col vs
                in if op = ''>'' then (Inr (smap (num_test (\<lambda>x. x > val)) s), df')
                   else if op = ''<'' then (Inr (smap (num_test (\<lambda>x. x < val)) s), df')
                   else if op = ''>='' then (Inr (smap (num_test (\<lambda>x. x \<ge> val)) s), df')
                   else if op = ''<='' then (Inr (smap (num_test (\<lambda>x. x \<le> val)) s), df')
                   else if op = ''='' then (Inr (smap (num_test (\<lambda>x. x = val)) s), df')
                   else if op = ''!='' then (Inr (smap (\<lambda>c. \<not> num_test (\<lambda>x. x = val) c) s), df')
                   else equal_condition P df' cond)))"

text \<open>The patterns in the order of the source; \<open>gs ! i\<close> is \<open>m.group(i + 1)\<close>.\<close>

definition parse_condition :: "pd \<Rightarrow> dataframe \<Rightarrow> string \<Rightarrow> outcome" where
  "parse_condition P df cond0 =
     (let cond = strip cond0 in
      case re_match rx_exclude cond of
        Some gs \<Rightarrow> exclude_list df (gs ! 0) (gs ! 1)
      | None \<Rightarrow>
     (case re_match rx_include cond of
        Some gs \<Rightarrow> include_list df (gs ! 0) (gs ! 1)
      | None \<Rightarrow>
     (case re_match rx_range cond of
        Some gs \<Rightarrow> range_condition P df (gs ! 0) (gs ! 1) (gs ! 2)
      | None \<Rightarrow>
     (case re_match rx_compare cond of
        Some gs \<Rightarrow> compare_condition P df cond (gs ! 0) (gs ! 1) (gs ! 2)
      | None \<Rightarrow> equal_condition P df cond))))"

section \<open>\<open>evaluate_filter\<close>\<close>

text \<open>
  \<open>re.split(r'\bOR\b', expr, flags=re.IGNORECASE)\<close>. The keyword matches where the text
  continues with its letters in either case, the character before is no word character
  (\<open>pw\<close> tells whether it is one) and the character after is none. The search goes on
  behind a match. The result is never empty: a text without the keyword is its only part.
\<close>

definition lower :: "char \<Rightarrow> char" where
  "lower c = (let n = (of_char c :: nat) in if 65 \<le> n \<and> n \<le> 90 then char_of (n + 32) else c)"

definition kw_here :: "string \<Rightarrow> bool \<Rightarrow> string \<Rightarrow> bool" where
  "kw_here kw pw s =
     (\<not> pw \<and> map lower (take (length kw) s) = map lower kw \<and>
      (case drop (length kw) s of [] \<Rightarrow> True | d # _ \<Rightarrow> \<not> is_word d))"

function re_split :: "string \<Rightarrow> bool \<Rightarrow> string \<Rightarrow> string list" where
  "re_split kw pw [] = [[]]"
| "re_split kw pw (c # cs) =
     (if kw \<noteq> [] \<and> kw_here kw pw (c # cs)
      then [] # re_split kw (is_word (last kw)) (drop (length kw) (c # cs))
      else (let r = re_split kw (is_word c) cs in (c # hd r) # tl r))"
  by pat_completeness auto
termination
  by (relation "measure (\<lambda>(kw, pw, s). length s)") auto

definition ends_with :: "string \<Rightarrow> string \<Rightarrow> bool" where
  "ends_with l s = (length l \<le> length s \<and> drop (length s - length l) s = l)"

text \<open>One round of \<open>mask = mask | evaluate_filter(df, part)\<close>; an error ends the loop.\<close>

definition combine :: "(bool series \<Rightarrow> bool series \<Rightarrow> bool series) \<Rightarrow> outcome \<Rightarrow> outcome \<Rightarrow> outcome" where
  "combine f acc res =
     (case acc of
        (Inl e, d) \<Rightarrow> (Inl e, d)
      | (Inr acc_mask, d) \<Rightarrow>
          (case res of (Inl e, d') \<Rightarrow> (Inl e, d') | (Inr m, d') \<Rightarrow> (Inr (f acc_mask m), d')))"

lemma re_split_nonempty: "re_split kw pw s \<noteq> []"
  by (induction kw pw s rule: re_split.induct) (auto simp: Let_def)

lemma kw_here_length: "kw_here kw pw s \<Longrightarrow> length kw \<le> length s"
  unfolding kw_here_def
  by (metis length_map length_take min.cobounded2 min_def linorder_le_cases take_all)

lemma re_split_length:
  "sum_list (map length (re_split kw pw s)) + length kw * (length (re_split kw pw s) - 1) = length s"
proof (induction kw pw s rule: re_split.induct)
  case (1 kw pw)
  show ?case by simp
next
  case (2 kw pw c cs)
  show ?case
  proof (cases "kw \<noteq> [] \<and> kw_here kw pw (c # cs)")
    case True
    define r where "r = re_split kw (is_word (last kw)) (drop (length kw) (c # cs))"
    have len: "length kw \<le> length (c # cs)"
      using True kw_here_length by blast
    have ih: "sum_list (map length r) + length kw * (length r - 1) = length (c # cs) - length kw"
      using True 2(1) unfolding r_def by simp
    have "r \<noteq> []" unfolding r_def by (rule re_split_nonempty)
    then obtain n where n: "length r = Suc n" by (cases r) auto
    have eq: "re_split kw pw (c # cs) = [] # r"
      using True unfolding r_def by simp
    have "sum_list (map length r) + length kw * n + length kw = length (c # cs)"
      using ih len n by simp
    then show ?thesis unfolding eq using n by simp
  next
    case False
    define r where "r = re_split kw (is_word c) cs"
    have ih: "sum_list (map length r) + length kw * (length r - 1) = length cs"
      using False 2(2) unfolding r_def by simp
    have "r \<noteq> []" unfolding r_def by (rule re_split_nonempty)
    then obtain p ps where r: "r = p # ps" by (cases r) auto
    have eq: "re_split kw pw (c # cs) = (c # p) # ps"
      using False r unfolding r_def by (simp add: Let_def)
    show ?thesis unfolding eq using ih r by simp
  qed
qed

lemma re_split_part_shorter:
  assumes "length (re_split kw pw s) > 1" "kw \<noteq> []" "p \<in> set (re_split kw pw s)"
  shows "length p < length s"
proof -
  have "length p \<le> sum_list (map length (re_split kw pw s))"
    using assms(3) by (simp add: member_le_sum_list)
  moreover have "length kw * (length (re_split kw pw s) - 1) \<ge> 1"
    using assms(1,2) by (cases kw) auto
  ultimately show ?thesis using re_split_length[of kw pw s] by linarith
qed

lemma strip_length: "length (strip s) \<le> length s"
  unfolding strip_def
  by (metis length_dropWhile_le length_rev order_trans)

lemma paren_body_length: "length (strip (butlast (tl s))) \<le> length s"
  by (rule order_trans[OF strip_length]) simp

lemma part_shorter:
  assumes "p \<in> set (re_split kw False e2)" "1 < length (re_split kw False e2)" "kw \<noteq> []"
    "e2 = (if starts_with ''('' (strip expr) \<and> ends_with '')'' (strip expr)
           then strip (butlast (tl (strip expr))) else strip expr)"
  shows "length p < length expr"
proof -
  have "length p < length e2"
    using assms(1-3) re_split_part_shorter by blast
  moreover have "length e2 \<le> length (strip expr)"
    using assms(4) paren_body_length by simp
  ultimately show ?thesis using strip_length[of expr] by linarith
qed

text \<open>
  \<open>evaluate_filter\<close>: strip, remove one outer pair of parentheses, split at OR, else at
  AND, else hand the text to \<open>parse_condition\<close>. The parts are evaluated from left to
  right on the same working frame.
\<close>

function evaluate_filter :: "pd \<Rightarrow> dataframe \<Rightarrow> string \<Rightarrow> outcome" where
  "evaluate_filter P df expr =
     (let e1 = strip expr;
          e2 = (if starts_with ''('' e1 \<and> ends_with '')'' e1 then strip (butlast (tl e1)) else e1);
          or_parts = re_split ''OR'' False e2
      in if length or_parts > 1
         then foldl (\<lambda>acc part. case acc of
                        (Inl e, d) \<Rightarrow> (Inl e, d)
                      | (Inr acc_mask, d) \<Rightarrow> combine series_or (Inr acc_mask, d) (evaluate_filter P d part))
                (Inr (const_series (nrows df) False), df) or_parts
         else (let and_parts = re_split ''AND'' False e2
               in if length and_parts > 1
                  then foldl (\<lambda>acc part. case acc of
                                 (Inl e, d) \<Rightarrow> (Inl e, d)
                               | (Inr acc_mask, d) \<Rightarrow> combine series_and (Inr acc_mask, d) (evaluate_filter P d part))
                         (Inr (const_series (nrows df) True), df) and_parts
                  else parse_condition P df e2))"
  by pat_completeness auto

termination evaluate_filter
proof (relation "measure (\<lambda>(P, df, expr). length expr)", goal_cases)
  case 1
  show ?case by simp
next
  case (2 P df expr x xa xb a xc xd y b)
  have "length xc < length expr"
  proof (rule part_shorter[of xc "''OR''" xa expr])
    show "xc \<in> set (re_split ''OR'' False xa)" using 2(3,5) by simp
    show "1 < length (re_split ''OR'' False xa)" using 2(3,4) by simp
    show "''OR'' \<noteq> []" by simp
    show "xa = (if starts_with ''('' (strip expr) \<and> ends_with '')'' (strip expr)
           then strip (butlast (tl (strip expr))) else strip expr)" using 2(1,2) by simp
  qed
  then show ?case by simp
next
  case (3 P df expr x xa xb xc a xd xe y b)
  have "length xd < length expr"
  proof (rule part_shorter[of xd "''AND''" xa expr])
    show "xd \<in> set (re_split ''AND'' False xa)" using 3(5,7) by simp
    show "1 < length (re_split ''AND'' False xa)" using 3(5,6) by simp
    show "''AND'' \<noteq> []" by simp
    show "xa = (if starts_with ''('' (strip expr) \<and> ends_with '')'' (strip expr)
           then strip (butlast (tl (strip expr))) else strip expr)" using 3(1,2) by simp
  qed
  then show ?case by simp
qed

declare evaluate_filter.simps [simp del]

section \<open>\<open>apply_bool_filters\<close>\<close>

fun eq_true :: "cell \<Rightarrow> bool" where
  "eq_true (Boolean b) = b"
| "eq_true (Number x) = (x = 1)"
| "eq_true c = False"

fun isna :: "cell \<Rightarrow> bool" where
  "isna Missing = True"
| "isna c = False"

fun eq_empty :: "cell \<Rightarrow> bool" where
  "eq_empty (Text s) = (s = [])"
| "eq_empty c = False"

text \<open>
  Lines 137 to 141, the mask of one column. \<open>df[col]\<close> is read only under a flag that
  is set, and raises KeyError for a column the frame does not have.
\<close>

definition column_mask :: "dataframe \<Rightarrow> string \<Rightarrow> bool \<Rightarrow> bool \<Rightarrow> error + bool series" where
  "column_mask df col inc_true inc_blank =
     (let m0 = const_series (nrows df) False in
      if inc_true \<or> inc_blank then
        (case getitem df col of
           None \<Rightarrow> Inl KeyError
         | Some s \<Rightarrow>
             (let m1 = (if inc_true then series_or m0 (smap eq_true s) else m0)
              in Inr (if inc_blank then series_or (series_or m1 (smap isna s)) (smap eq_empty s)
                      else m1)))
      else Inr m0)"

fun bool_filter_loop :: "dataframe \<Rightarrow> (string \<times> bool \<times> bool) list \<Rightarrow> bool series \<Rightarrow> error + bool series" where
  "bool_filter_loop df [] acc = Inr acc"
| "bool_filter_loop df ((col, inc_true, inc_blank) # fs) acc =
     (case column_mask df col inc_true inc_blank of
        Inl e \<Rightarrow> Inl e
      | Inr cm \<Rightarrow> bool_filter_loop df fs (series_and acc cm))"

definition apply_bool_filters :: "dataframe \<Rightarrow> (string \<times> bool \<times> bool) list \<Rightarrow> error + bool series" where
  "apply_bool_filters df filters = bool_filter_loop df filters (const_series (nrows df) True)"

section \<open>The Apply button\<close>

text \<open>
  Lines 23 to 27: a column is boolean-like when each of its values that is not missing
  is in \<open>{True, False}\<close>, which by the equality of Python holds 1 and 0 too.
\<close>

fun bool_like :: "cell \<Rightarrow> bool" where
  "bool_like (Boolean b) = True"
| "bool_like (Number x) = (x = 0 \<or> x = 1)"
| "bool_like (Text s) = False"
| "bool_like Missing = True"

definition bool_cols :: "dataframe \<Rightarrow> string list" where
  "bool_cols df = map fst (filter (\<lambda>(c, vs). list_all bool_like vs) (df_columns df))"

text \<open>
  Lines 157 to 165. Frames are objects of a heap (a list, the address is the position):
  \<open>r\<close> is the uploaded frame \<open>df\<close>; \<open>df.copy()\<close> allocates the working frame, which
  \<open>evaluate_filter\<close> may change in place; a selection by a mask allocates its result. The
  address returned is what \<open>st.session_state.filtered_df\<close> is bound to.
\<close>

type_synonym heap = "dataframe list"

definition apply_filters ::
  "pd \<Rightarrow> heap \<Rightarrow> nat \<Rightarrow> string \<Rightarrow> (string \<times> bool \<times> bool) list \<Rightarrow> (error + nat) \<times> heap" where
  "apply_filters P h r filter_input bool_filters =
     (let w = length h; h1 = h @ [h ! r] in
      case (if strip filter_input \<noteq> [] then
              (case evaluate_filter P (h1 ! w) filter_input of
                 (Inl e, d) \<Rightarrow> (Inl e, h1[w := d])
               | (Inr m, d) \<Rightarrow>
                   (case getitem_mask d m of
                      Inl e \<Rightarrow> (Inl e, h1[w := d])
                    | Inr f \<Rightarrow> (Inr (Suc w), h1[w := d] @ [f])))
            else (Inr w, h1)) of
        (Inl e, h2) \<Rightarrow> (Inl e, h2)
      | (Inr a, h2) \<Rightarrow>
          if bool_cols (h ! r) \<noteq> [] then
            (case apply_bool_filters (h2 ! a) bool_filters of
               Inl e \<Rightarrow> (Inl e, h2)
             | Inr bm \<Rightarrow>
                 (case getitem_mask (h2 ! a) bm of
                    Inl e \<Rightarrow> (Inl e, h2)
                  | Inr f \<Rightarrow> (Inr (length h2), h2 @ [f])))
          else (Inr a, h2))"

section \<open>Example data\<close>

text \<open>
  A herd of three cows, as a CSV reader delivers it, and an instance of the library
  parameters: text cells are read as plain decimals, numbers are printed as \<open>num\<close>.
\<close>

definition herd_pd :: pd where
  "herd_pd = \<lparr>text_to_number = py_float, number_to_text = (\<lambda>x. ''num'')\<rparr>"

definition herd :: dataframe where
  "herd = \<lparr>df_index = [0, 1, 2],
            df_columns =
              [(''DIM'', [Number 40, Number 80, Number 50]),
               (''FCM'', [Number 35, Number 35, Number 20]),
               (''EART'', [Number 20017, Number 20018, Number 20022]),
               (''Breed'', [Text ''Holstein'', Text ''Jersey'', Missing])]\<rparr>"

section \<open>Facts about the matching engine\<close>

lemma first_some_None_iff: "first_some f xs = None \<longleftrightarrow> list_all (\<lambda>x. f x = None) xs"
  by (induction xs) (auto split: option.splits)

lemma first_some_SomeD: "first_some f xs = Some y \<Longrightarrow> \<exists>x. x \<in> set xs \<and> f x = Some y"
  by (induction xs) (auto split: option.splits)

lemma first_some_single:
  "a \<in> set xs \<Longrightarrow> (\<And>x. x \<in> set xs \<Longrightarrow> x \<noteq> a \<Longrightarrow> f x = None) \<Longrightarrow> first_some f xs = f a"
proof (induction xs)
  case Nil
  then show ?case by simp
next
  case (Cons x xs)
  show ?case
  proof (cases "x = a")
    case True
    show ?thesis
    proof (cases "f a")
      case None
      have "list_all (\<lambda>x. f x = None) xs"
        unfolding list_all_iff using Cons.prems(2) None by (metis list.set_intros(2))
      then have "first_some f xs = None" by (simp add: first_some_None_iff)
      then show ?thesis using True None by simp
    next
      case (Some y)
      then show ?thesis using True by simp
    qed
  next
    case False
    then have "f x = None" using Cons.prems(2) by simp
    moreover have "a \<in> set xs" using Cons.prems(1) False by auto
    ultimately show ?thesis using Cons.IH Cons.prems(2) by simp
  qed
qed

lemma set_cands_Rep:
  "set (cands (Rep as m) s) = {k. m \<le> k \<and> k \<le> length (takeWhile (in_class as) s)}"
  by auto

lemma re_match_Cons:
  "re_match ((cap, r) # ps) s =
     first_some (\<lambda>k. case re_match ps (drop k s) of None \<Rightarrow> None
                       | Some gs \<Rightarrow> Some (if cap then take k s # gs else gs)) (cands r s)"
  by (simp cong: option.case_cong)

declare re_match.simps(2) [simp del]
declare cands.simps [simp del]

lemma re_match_Rep_D:
  assumes "re_match ((cap, Rep as m) # ps) s = Some gs"
  shows "\<exists>k gs'. m \<le> k \<and> k \<le> length (takeWhile (in_class as) s) \<and>
           re_match ps (drop k s) = Some gs' \<and> gs = (if cap then take k s # gs' else gs')"
proof -
  from assms obtain k where k: "k \<in> set (cands (Rep as m) s)"
    and r: "(case re_match ps (drop k s) of None \<Rightarrow> None
             | Some gs' \<Rightarrow> Some (if cap then take k s # gs' else gs')) = Some gs"
    unfolding re_match_Cons by (blast dest: first_some_SomeD)
  from r obtain gs' where "re_match ps (drop k s) = Some gs'" "gs = (if cap then take k s # gs' else gs')"
    by (auto split: option.splits)
  moreover from k have "m \<le> k \<and> k \<le> length (takeWhile (in_class as) s)"
    unfolding set_cands_Rep by simp
  ultimately show ?thesis by blast
qed

lemma re_match_Lit:
  "re_match ((cap, Lit l) # ps) s =
     (if starts_with l s
      then map_option (\<lambda>gs. if cap then l # gs else gs) (re_match ps (drop (length l) s))
      else None)"
  by (auto simp: re_match_Cons cands.simps starts_with_def split: option.splits)

lemma re_match_Rep_det:
  assumes "\<And>k. m \<le> k \<Longrightarrow> k < length (takeWhile (in_class as) s) \<Longrightarrow> re_match ps (drop k s) = None"
  shows "re_match ((cap, Rep as m) # ps) s =
     (if m \<le> length (takeWhile (in_class as) s)
      then map_option (\<lambda>gs. if cap then takeWhile (in_class as) s # gs else gs)
             (re_match ps (dropWhile (in_class as) s))
      else None)"
proof (cases "m \<le> length (takeWhile (in_class as) s)")
  case False
  then have "cands (Rep as m) s = []" by (simp add: cands.simps)
  then show ?thesis using False by (simp add: re_match_Cons)
next
  case True
  define n where "n = length (takeWhile (in_class as) s)"
  define F where "F = (\<lambda>k. case re_match ps (drop k s) of None \<Rightarrow> None
            | Some gs \<Rightarrow> Some (if cap then take k s # gs else gs))"
  have mem: "n \<in> set (cands (Rep as m) s)" using True unfolding n_def set_cands_Rep by simp
  have others: "\<And>x. x \<in> set (cands (Rep as m) s) \<Longrightarrow> x \<noteq> n \<Longrightarrow> F x = None"
  proof -
    fix x assume "x \<in> set (cands (Rep as m) s)" "x \<noteq> n"
    then have "m \<le> x" "x < n" unfolding n_def set_cands_Rep by auto
    then have "re_match ps (drop x s) = None" using assms unfolding n_def by blast
    then show "F x = None" unfolding F_def by simp
  qed
  have "re_match ((cap, Rep as m) # ps) s = first_some F (cands (Rep as m) s)"
    unfolding F_def by (rule re_match_Cons)
  also have "\<dots> = F n" by (rule first_some_single[OF mem others])
  also have "\<dots> = map_option (\<lambda>gs. if cap then takeWhile (in_class as) s # gs else gs)
             (re_match ps (dropWhile (in_class as) s))"
  proof -
    have t: "take n s = takeWhile (in_class as) s" unfolding n_def
      by (metis takeWhile_eq_take)
    have d: "drop n s = dropWhile (in_class as) s" unfolding n_def
      by (metis dropWhile_eq_drop)
    show ?thesis unfolding F_def t d by (auto split: option.splits)
  qed
  finally show ?thesis using True by simp
qed

lemma drop_in_takeWhile:
  assumes "k < length (takeWhile P s)"
  shows "\<exists>c t. drop k s = c # t \<and> P c"
proof -
  have k: "k < length s" using assms length_takeWhile_le[of P s] by (meson less_le_trans)
  have "P (s ! k)" using assms by (metis nth_mem set_takeWhileD takeWhile_nth)
  moreover have "drop k s = s ! k # drop (Suc k) s" using k by (simp add: Cons_nth_drop_Suc)
  ultimately show ?thesis by blast
qed

lemma in_class_word [simp]: "in_class [AWord] = is_word"
  by (rule ext) (simp add: in_class_def)

lemma in_class_space [simp]: "in_class [ASpace] = is_space"
  by (rule ext) (simp add: in_class_def)

lemma in_class_num [simp]: "in_class [ADigit, AChar CHR ''.''] = num_char"
  by (rule ext) (auto simp: in_class_def num_char_def)

lemma in_class_list [simp]:
  "in_class [ADigit, AChar CHR ''.'', AChar CHR '','', AChar CHR '' ''] = list_char"
  by (rule ext) (auto simp: in_class_def list_char_def)

lemma word_not_space: "is_word c \<Longrightarrow> \<not> is_space c"
  by (auto simp: is_word_def is_space_def Let_def)

lemma digit_word: "is_digit c \<Longrightarrow> is_word c"
  by (auto simp: is_word_def is_digit_def Let_def)

lemma num_not_space: "num_char c \<Longrightarrow> \<not> is_space c"
  by (auto simp: num_char_def is_digit_def is_space_def Let_def)

lemma re_match_Rep_greedy:
  assumes "m \<le> length (takeWhile (in_class as) s)"
    and "re_match ps (dropWhile (in_class as) s) = Some gs"
  shows "re_match ((cap, Rep as m) # ps) s =
           Some (if cap then takeWhile (in_class as) s # gs else gs)"
proof -
  define n where "n = length (takeWhile (in_class as) s)"
  have c: "cands (Rep as m) s = n # rev [m ..< n]"
    using assms(1) unfolding n_def by (simp add: cands.simps)
  have t: "take n s = takeWhile (in_class as) s" unfolding n_def by (metis takeWhile_eq_take)
  have d: "drop n s = dropWhile (in_class as) s" unfolding n_def by (metis dropWhile_eq_drop)
  show ?thesis unfolding re_match_Cons c using assms(2) by (simp add: t d)
qed

lemma re_match_last_Rep:
  "re_match [(True, Rep as 1)] t =
     (if takeWhile (in_class as) t = [] then None else Some [takeWhile (in_class as) t])"
proof (cases "takeWhile (in_class as) t = []")
  case True
  then have "cands (Rep as 1) t = []" by (simp add: cands.simps)
  then show ?thesis using True by (simp add: re_match_Cons)
next
  case False
  then have "1 \<le> length (takeWhile (in_class as) t)" by (cases "takeWhile (in_class as) t") auto
  from re_match_Rep_greedy[OF this, of "[]" "[]" True] False show ?thesis by simp
qed

lemma re_match_D:
  assumes "re_match ((cap, r) # ps) s = Some gs"
  shows "\<exists>k gs'. k \<in> set (cands r s) \<and> re_match ps (drop k s) = Some gs'"
proof -
  from assms obtain k where "k \<in> set (cands r s)"
    and "(case re_match ps (drop k s) of None \<Rightarrow> None
          | Some gs' \<Rightarrow> Some (if cap then take k s # gs' else gs')) = Some gs"
    unfolding re_match_Cons by (blast dest: first_some_SomeD)
  then show ?thesis by (auto split: option.splits)
qed

lemma count_list_drop: "count_list (drop k s) x \<le> count_list s x"
  by (metis append_take_drop_id count_list_append le_add2)

lemma lit_count_le:
  "re_match ps s = Some gs \<Longrightarrow> lit_count x ps \<le> count_list s x"
proof (induction ps arbitrary: s gs)
  case Nil
  show ?case by simp
next
  case (Cons p ps)
  obtain cap r where p: "p = (cap, r)" by (cases p)
  from Cons.prems obtain k gs' where k: "k \<in> set (cands r s)"
    and m: "re_match ps (drop k s) = Some gs'"
    unfolding p using re_match_D by blast
  have ih: "lit_count x ps \<le> count_list (drop k s) x" using Cons.IH[OF m] .
  show ?case
  proof (cases r)
    case (Lit l)
    from k have "starts_with l s" "k = length l" unfolding Lit by (auto simp: cands.simps split: if_splits)
    then have "s = l @ drop k s" unfolding starts_with_def by (metis append_take_drop_id)
    then have "count_list s x = count_list l x + count_list (drop k s) x"
      by (metis count_list_append)
    then show ?thesis using ih unfolding p Lit by simp
  next
    case (Alt ls)
    then show ?thesis using ih count_list_drop[of k s x] unfolding p by simp
  next
    case (Rep as n)
    then show ?thesis using ih count_list_drop[of k s x] unfolding p by simp
  qed
qed

lemma head_word_space:
  assumes nw: "\<And>c t. is_word c \<or> is_space c \<Longrightarrow> re_match ps (c # t) = None"
  shows "re_match ((True, Rep [AWord] 1) # (False, Rep [ASpace] 0) # ps) s =
     (if takeWhile is_word s = [] then None
      else map_option (\<lambda>gs. takeWhile is_word s # gs)
             (re_match ps (dropWhile is_space (dropWhile is_word s))))"
proof -
  have sp: "re_match ((False, Rep [ASpace] 0) # ps) t = re_match ps (dropWhile is_space t)" for t
  proof -
    have "\<And>k. 0 \<le> k \<Longrightarrow> k < length (takeWhile (in_class [ASpace]) t) \<Longrightarrow> re_match ps (drop k t) = None"
    proof -
      fix k assume "k < length (takeWhile (in_class [ASpace]) t)"
      then obtain c u where "drop k t = c # u" "is_space c"
        using drop_in_takeWhile[of k "in_class [ASpace]" t] by auto
      then show "re_match ps (drop k t) = None" using nw by simp
    qed
    from re_match_Rep_det[of 0 "[ASpace]" t ps False, OF this]
    show ?thesis by (simp add: option.map_ident)
  qed
  have "\<And>k. 1 \<le> k \<Longrightarrow> k < length (takeWhile (in_class [AWord]) s) \<Longrightarrow>
          re_match ((False, Rep [ASpace] 0) # ps) (drop k s) = None"
  proof -
    fix k assume "k < length (takeWhile (in_class [AWord]) s)"
    then obtain c u where d: "drop k s = c # u" and w: "is_word c"
      using drop_in_takeWhile[of k "in_class [AWord]" s] by auto
    have "dropWhile is_space (c # u) = c # u" using word_not_space[OF w] by simp
    then show "re_match ((False, Rep [ASpace] 0) # ps) (drop k s) = None"
      unfolding d sp using nw w by simp
  qed
  from re_match_Rep_det[of 1 "[AWord]" s "(False, Rep [ASpace] 0) # ps" True, OF this]
  show ?thesis unfolding sp by (cases "takeWhile is_word s") auto
qed

lemma block_end: "list_all P xs \<Longrightarrow> takeWhile P xs = xs \<and> dropWhile P xs = []"
  by (simp add: list_all_iff)

lemma block1:
  "list_all Q ws \<Longrightarrow> \<not> Q d \<Longrightarrow>
   takeWhile Q (ws @ d # r) = ws \<and> dropWhile Q (ws @ d # r) = d # r"
  by (simp add: list_all_iff takeWhile_append2 dropWhile_append2)

lemma block2:
  assumes "list_all P xs" "list_all Q ws" "\<And>c. Q c \<Longrightarrow> \<not> P c" "\<not> P d"
  shows "takeWhile P (xs @ ws @ d # r) = xs \<and> dropWhile P (xs @ ws @ d # r) = ws @ d # r"
proof -
  have "takeWhile P (ws @ d # r) = []" using assms(2,3,4) by (cases ws) auto
  moreover have "dropWhile P (ws @ d # r) = ws @ d # r" using assms(2,3,4) by (cases ws) auto
  ultimately show ?thesis using assms(1) by (simp add: list_all_iff takeWhile_append2 dropWhile_append2)
qed

lemma strip_id:
  assumes "s \<noteq> []" "\<not> is_space (hd s)" "\<not> is_space (last s)"
  shows "strip s = s"
proof -
  have a: "dropWhile is_space s = s" using assms(1,2) by (cases s) auto
  have ne: "rev s \<noteq> []" and hd: "hd (rev s) = last s" using assms(1) by (simp_all add: hd_rev)
  obtain x xs where r: "rev s = x # xs" using ne by (cases "rev s") auto
  have "x = last s" using hd unfolding r by simp
  then have b: "dropWhile is_space (rev s) = rev s" using assms(3) unfolding r by simp
  show ?thesis unfolding strip_def a b by simp
qed

lemma num_word_or_dot: "num_char c \<Longrightarrow> is_word c \<or> c = CHR ''.''"
  by (auto simp: num_char_def digit_word)

lemma alt_fails_on_word_space:
  assumes "is_word c \<or> is_space c"
  shows "re_match ((cap, Alt [''>='', ''<='', ''='', ''!='', ''>'', ''<'']) # ps) (c # t) = None"
proof -
  have "c \<noteq> CHR ''>''" "c \<noteq> CHR ''<''" "c \<noteq> CHR ''=''" "c \<noteq> CHR ''!''"
    using assms by (auto simp: is_word_def is_space_def Let_def)
  then have "cands (Alt [''>='', ''<='', ''='', ''!='', ''>'', ''<'']) (c # t) = []"
    by (simp add: cands.simps starts_with_def)
  then show ?thesis by (simp add: re_match_Cons)
qed

lemma lit_fails_on_word_space:
  assumes "is_word c \<or> is_space c" "l = ''='' \<or> l = ''!=''"
  shows "re_match ((cap, Lit l) # ps) (c # t) = None"
proof -
  have "c \<noteq> CHR ''=''" "c \<noteq> CHR ''!''"
    using assms(1) by (auto simp: is_word_def is_space_def Let_def)
  then show ?thesis using assms(2) by (auto simp: re_match_Lit starts_with_def)
qed

text \<open>The tail \<open>\s*(class+)\<close> of a pattern on blanks followed by a text of the class.\<close>

lemma tail_match:
  assumes "list_all is_space w" "v \<noteq> []" "list_all (in_class as) v" "\<not> is_space (hd v)"
  shows "re_match [(False, Rep [ASpace] 0), (True, Rep as 1)] (w @ v) = Some [v]"
proof -
  obtain d r where v: "v = d # r" using assms(2) by (cases v) auto
  have d: "dropWhile is_space (w @ v) = v"
    using block1[of is_space w d r] assms(1,4) unfolding v by simp
  have t: "takeWhile (in_class as) v = v" using assms(3) by (simp add: list_all_iff)
  have "re_match [(True, Rep as 1)] v = Some [v]"
    unfolding re_match_last_Rep t using assms(2) by simp
  then have "re_match [(True, Rep as 1)] (dropWhile (in_class [ASpace]) (w @ v)) = Some [v]"
    using d by simp
  from re_match_Rep_greedy[OF _ this, of 0 False] show ?thesis by simp
qed

lemma word_block:
  assumes "col \<noteq> []" "list_all is_word col" "list_all is_space w" "\<not> is_word d" "\<not> is_space d"
  shows "takeWhile is_word (col @ w @ d # r) = col"
    and "dropWhile is_space (dropWhile is_word (col @ w @ d # r)) = d # r"
proof -
  have a: "takeWhile is_word (col @ w @ d # r) = col \<and> dropWhile is_word (col @ w @ d # r) = w @ d # r"
    by (rule block2[OF assms(2,3) _ assms(4)]) (use word_not_space in blast)
  show "takeWhile is_word (col @ w @ d # r) = col" using a by simp
  show "dropWhile is_space (dropWhile is_word (col @ w @ d # r)) = d # r"
    using a block1[OF assms(3,5)] by simp
qed

lemma alt_step:
  assumes "cands r s = k # ks" "re_match ps (drop k s) = Some gs"
  shows "re_match ((True, r) # ps) s = Some (take k s # gs)"
  unfolding re_match_Cons assms(1) using assms(2) by simp

lemma hd_tail_not_eq:
  assumes "list_all is_space w2" "val \<noteq> []" "list_all num_char val"
  shows "\<exists>e t. w2 @ val = e # t \<and> e \<noteq> CHR ''=''"
proof (cases w2)
  case Nil
  obtain a v where v: "val = a # v" using assms(2) by (cases val) auto
  then have "num_char a" using assms(3) by simp
  then have "a \<noteq> CHR ''=''" by (auto simp: num_char_def is_digit_def Let_def)
  then show ?thesis using Nil v by simp
next
  case (Cons a w)
  then have "is_space a" using assms(1) by simp
  then have "a \<noteq> CHR ''=''" by (auto simp: is_space_def Let_def)
  then show ?thesis using Cons by simp
qed

lemma cands_alt_1:
  assumes "e \<noteq> CHR ''=''" "d = CHR ''>'' \<or> d = CHR ''<''"
  shows "cands (Alt [''>='', ''<='', ''='', ''!='', ''>'', ''<'']) (d # e # t) = [1]"
  using assms by (auto simp: cands.simps starts_with_def)

lemma cands_alt_2:
  assumes "d = CHR ''>'' \<or> d = CHR ''<''"
  shows "cands (Alt [''>='', ''<='', ''='', ''!='', ''>'', ''<'']) (d # CHR ''='' # t) = [2, 1]"
  using assms by (auto simp: cands.simps starts_with_def)


lemma rx_compare_match:
  assumes col: "col \<noteq> []" "list_all is_word col"
    and ws: "list_all is_space w1" "list_all is_space w2"
    and val: "val \<noteq> []" "list_all num_char val"
    and op: "op = ''>'' \<or> op = ''<'' \<or> op = ''>='' \<or> op = ''<=''"
  shows "re_match rx_compare (col @ w1 @ op @ w2 @ val) = Some [col, op, val]"
proof -
  let ?alt = "Alt [''>='', ''<='', ''='', ''!='', ''>'', ''<'']"
  let ?tail = "[(False, Rep [ASpace] 0), (True, Rep [ADigit, AChar CHR ''.''] 1)]"
  obtain d o' where o: "op = d # o'" "d = CHR ''>'' \<or> d = CHR ''<''" "o' = [] \<or> o' = ''=''"
    using op by auto
  have dn: "\<not> is_word d" "\<not> is_space d"
    using o(2) by (auto simp: is_word_def is_space_def Let_def)
  have nsp: "\<not> is_space (hd val)" using val by (cases val) (auto simp: num_not_space)
  have cls: "list_all (in_class [ADigit, AChar CHR ''.'']) val" using val(2) by simp
  have tail: "re_match ?tail (w2 @ val) = Some [val]"
    by (rule tail_match[OF ws(2) val(1) cls nsp])
  obtain e t where t: "w2 @ val = e # t" "e \<noteq> CHR ''=''"
    using hd_tail_not_eq[OF ws(2) val] by blast
  have alt: "re_match ((True, ?alt) # ?tail) (op @ w2 @ val) = Some [op, val]"
  proof (cases "o' = []")
    case True
    have c: "cands ?alt (op @ w2 @ val) = [1]"
      using cands_alt_1[OF t(2) o(2)] o(1) True t(1) by simp
    have "re_match ?tail (drop 1 (op @ w2 @ val)) = Some [val]"
      using tail o(1) True by simp
    from alt_step[OF c this] show ?thesis using o(1) True by simp
  next
    case False
    then have o2: "o' = ''=''" using o(3) by simp
    have c: "cands ?alt (op @ w2 @ val) = [2, 1]"
      using cands_alt_2[OF o(2)] o(1) o2 by simp
    have "re_match ?tail (drop 2 (op @ w2 @ val)) = Some [val]"
      using tail o(1) o2 by simp
    from alt_step[OF c this] show ?thesis using o(1) o2 by simp
  qed
  have s: "col @ w1 @ op @ w2 @ val = col @ w1 @ d # (o' @ w2 @ val)" using o(1) by simp
  have tw: "takeWhile is_word (col @ w1 @ op @ w2 @ val) = col"
    unfolding s by (rule word_block(1)[OF col ws(1) dn])
  have dw: "dropWhile is_space (dropWhile is_word (col @ w1 @ op @ w2 @ val)) = op @ w2 @ val"
    unfolding s using word_block(2)[OF col ws(1) dn] o(1) by simp
  have "re_match rx_compare (col @ w1 @ op @ w2 @ val) =
      (if takeWhile is_word (col @ w1 @ op @ w2 @ val) = [] then None
       else map_option (\<lambda>gs. takeWhile is_word (col @ w1 @ op @ w2 @ val) # gs)
             (re_match ((True, ?alt) # ?tail)
                (dropWhile is_space (dropWhile is_word (col @ w1 @ op @ w2 @ val)))))"
    unfolding rx_compare_def by (rule head_word_space) (rule alt_fails_on_word_space)
  then show ?thesis unfolding tw dw alt using col(1) by simp
qed

lemma rx_exclude_none:
  assumes "CHR ''!'' \<notin> set s"
  shows "re_match rx_exclude s = None"
proof (rule ccontr)
  assume "re_match rx_exclude s \<noteq> None"
  then obtain gs where "re_match rx_exclude s = Some gs" by auto
  from lit_count_le[OF this, of "CHR ''!''"] have "1 \<le> count_list s CHR ''!''"
    by (simp add: rx_exclude_def)
  then show False using assms by (simp add: count_list_0_iff)
qed

lemma rx_range_none:
  assumes "count_list s CHR ''<'' < 2"
  shows "re_match rx_range s = None"
proof (rule ccontr)
  assume "re_match rx_range s \<noteq> None"
  then obtain gs where "re_match rx_range s = Some gs" by auto
  from lit_count_le[OF this, of "CHR ''<''"] have "2 \<le> count_list s CHR ''<''"
    by (simp add: rx_range_def)
  then show False using assms by simp
qed

lemma list_head:
  assumes col: "col \<noteq> []" "list_all is_word col"
    and ws: "list_all is_space w1"
    and d: "\<not> is_word d" "\<not> is_space d"
    and l: "l = ''='' \<or> l = ''!=''"
  shows "re_match ((True, Rep [AWord] 1) # (False, Rep [ASpace] 0) # (False, Lit l) # ps)
           (col @ w1 @ d # r) =
         (if starts_with l (d # r)
          then map_option (\<lambda>gs. col # gs) (re_match ps (drop (length l) (d # r)))
          else None)"
proof -
  have "re_match ((True, Rep [AWord] 1) # (False, Rep [ASpace] 0) # (False, Lit l) # ps)
           (col @ w1 @ d # r) =
      (if takeWhile is_word (col @ w1 @ d # r) = [] then None
       else map_option (\<lambda>gs. takeWhile is_word (col @ w1 @ d # r) # gs)
             (re_match ((False, Lit l) # ps)
                (dropWhile is_space (dropWhile is_word (col @ w1 @ d # r)))))"
    by (rule head_word_space) (rule lit_fails_on_word_space[OF _ l])
  then show ?thesis
    unfolding word_block(1)[OF col ws d] word_block(2)[OF col ws d] re_match_Lit
    using col(1) by (simp add: option.map_comp comp_def)
qed

lemma rx_include_none_op:
  assumes "col \<noteq> []" "list_all is_word col" "list_all is_space w1"
    "\<not> is_word d" "\<not> is_space d" "d \<noteq> CHR ''=''"
  shows "re_match rx_include (col @ w1 @ d # r) = None"
  unfolding rx_include_def
  by (subst list_head[OF assms(1-5)]) (use assms(6) in \<open>simp_all add: starts_with_def\<close>)

lemma rx_exclude_none_op:
  assumes "col \<noteq> []" "list_all is_word col" "list_all is_space w1"
    "\<not> is_word d" "\<not> is_space d" "d \<noteq> CHR ''!''"
  shows "re_match rx_exclude (col @ w1 @ d # r) = None"
  unfolding rx_exclude_def
  by (subst list_head[OF assms(1-5)]) (use assms(6) in \<open>simp_all add: starts_with_def\<close>)

lemma rx_include_match:
  assumes col: "col \<noteq> []" "list_all is_word col"
    and ws: "list_all is_space w1" "list_all is_space w2"
    and body: "body \<noteq> []" "list_all list_char body" "\<not> is_space (hd body)"
  shows "re_match rx_include (col @ w1 @ ''='' @ w2 @ body) = Some [col, body]"
proof -
  have cls: "list_all (in_class [ADigit, AChar CHR ''.'', AChar CHR '','', AChar CHR '' '']) body"
    using body(2) by simp
  have tail: "re_match [(False, Rep [ASpace] 0),
                (True, Rep [ADigit, AChar CHR ''.'', AChar CHR '','', AChar CHR '' ''] 1)] (w2 @ body) = Some [body]"
    by (rule tail_match[OF ws(2) body(1) cls body(3)])
  have d: "\<not> is_word CHR ''=''" "\<not> is_space CHR ''=''"
    by (simp_all add: is_word_def is_space_def)
  have "re_match rx_include (col @ w1 @ CHR ''='' # (w2 @ body)) = Some [col, body]"
    unfolding rx_include_def
    by (subst list_head[OF col ws(1) d]) (use tail in \<open>simp_all add: starts_with_def\<close>)
  then show ?thesis by simp
qed

lemma rx_exclude_match:
  assumes col: "col \<noteq> []" "list_all is_word col"
    and ws: "list_all is_space w1" "list_all is_space w2"
    and body: "body \<noteq> []" "list_all list_char body" "\<not> is_space (hd body)"
  shows "re_match rx_exclude (col @ w1 @ ''!='' @ w2 @ body) = Some [col, body]"
proof -
  have cls: "list_all (in_class [ADigit, AChar CHR ''.'', AChar CHR '','', AChar CHR '' '']) body"
    using body(2) by simp
  have tail: "re_match [(False, Rep [ASpace] 0),
                (True, Rep [ADigit, AChar CHR ''.'', AChar CHR '','', AChar CHR '' ''] 1)] (w2 @ body) = Some [body]"
    by (rule tail_match[OF ws(2) body(1) cls body(3)])
  have d: "\<not> is_word CHR ''!''" "\<not> is_space CHR ''!''"
    by (simp_all add: is_word_def is_space_def)
  have "re_match rx_exclude (col @ w1 @ CHR ''!'' # (CHR ''='' # w2 @ body)) = Some [col, body]"
    unfolding rx_exclude_def
    by (subst list_head[OF col ws(1) d]) (use tail in \<open>simp_all add: starts_with_def\<close>)
  then show ?thesis by simp
qed

lemma py_float_nonempty: "py_float s = Some v \<Longrightarrow> s \<noteq> []"
  by (auto simp: py_float_def strip_def Let_def)

lemma split_comma_none: "CHR '','' \<notin> set s \<Longrightarrow> split_comma s = [s]"
  by (induction s) auto

lemma num_text_strip:
  assumes "s \<noteq> []" "list_all num_char s"
  shows "strip s = s"
proof (rule strip_id[OF assms(1)])
  have "num_char (hd s)" using assms by (cases s) auto
  then show "\<not> is_space (hd s)" by (rule num_not_space)
  have "last s \<in> set s" using assms(1) by simp
  then have "num_char (last s)" using assms(2) by (simp add: list_all_iff)
  then show "\<not> is_space (last s)" by (rule num_not_space)
qed

lemma float_list_single:
  assumes "list_all num_char val" "py_float val = Some v"
  shows "float_list val = Some [v]"
proof -
  have ne: "val \<noteq> []" using assms(2) by (rule py_float_nonempty)
  have "CHR '','' \<notin> set val"
    using assms(1) by (auto simp: list_all_iff num_char_def is_digit_def Let_def)
  then have "split_comma val = [val]" by (rule split_comma_none)
  then show ?thesis
    unfolding float_list_def using num_text_strip[OF ne assms(1)] assms(2) by simp
qed

lemma cond_strip:
  assumes "col \<noteq> []" "list_all is_word col" "val \<noteq> []" "\<not> is_space (last val)"
  shows "strip (col @ mid @ val) = col @ mid @ val"
proof (rule strip_id)
  show "col @ mid @ val \<noteq> []" using assms(1) by simp
  have "is_word (hd col)" using assms(1,2) by (cases col) auto
  then show "\<not> is_space (hd (col @ mid @ val))" using assms(1) word_not_space by simp
  show "\<not> is_space (last (col @ mid @ val))" using assms(3,4) by simp
qed

lemma num_last_not_space:
  assumes "s \<noteq> []" "list_all num_char s"
  shows "\<not> is_space (last s)"
proof -
  have "last s \<in> set s" using assms(1) by simp
  then have "num_char (last s)" using assms(2) by (simp add: list_all_iff)
  then show ?thesis by (rule num_not_space)
qed

lemma parse_as_compare:
  assumes col: "col \<noteq> []" "list_all is_word col"
    and ws: "list_all is_space w1" "list_all is_space w2"
    and val: "val \<noteq> []" "list_all num_char val"
    and op: "op = ''>'' \<or> op = ''<'' \<or> op = ''>='' \<or> op = ''<=''"
  shows "parse_condition P df (col @ w1 @ op @ w2 @ val) =
           compare_condition P df (col @ w1 @ op @ w2 @ val) col op val"
proof -
  let ?s = "col @ w1 @ op @ w2 @ val"
  have st: "strip ?s = ?s"
    using cond_strip[OF col val(1) num_last_not_space[OF val], of "w1 @ op @ w2"] by simp
  obtain d o' where o: "op = d # o'" "d = CHR ''>'' \<or> d = CHR ''<''" "o' = [] \<or> o' = ''=''"
    using op by auto
  have dn: "\<not> is_word d" "\<not> is_space d" "d \<noteq> CHR ''=''" "d \<noteq> CHR ''!''"
    using o(2) by (auto simp: is_word_def is_space_def Let_def)
  have s: "?s = col @ w1 @ d # (o' @ w2 @ val)" using o(1) by simp
  have nb: "CHR ''!'' \<notin> set col" "CHR ''!'' \<notin> set w1" "CHR ''!'' \<notin> set w2" "CHR ''!'' \<notin> set val"
    "CHR ''<'' \<notin> set col" "CHR ''<'' \<notin> set w1" "CHR ''<'' \<notin> set w2" "CHR ''<'' \<notin> set val"
    using col(2) ws val(2)
    by (auto simp: list_all_iff is_word_def is_space_def num_char_def is_digit_def Let_def)
  have ex: "re_match rx_exclude ?s = None"
    unfolding s by (rule rx_exclude_none_op[OF col ws(1) dn(1,2,4)])
  have inc: "re_match rx_include ?s = None"
    unfolding s by (rule rx_include_none_op[OF col ws(1) dn(1,2,3)])
  have "count_list ?s CHR ''<'' = count_list op CHR ''<''"
    using nb by (simp add: count_list_0_iff)
  also have "\<dots> < 2" using op by auto
  finally have rg: "re_match rx_range ?s = None" by (rule rx_range_none)
  have cm: "re_match rx_compare ?s = Some [col, op, val]"
    by (rule rx_compare_match[OF col ws val op])
  show ?thesis
    unfolding parse_condition_def st Let_def ex inc rg cm by simp
qed

lemma parse_as_include:
  assumes col: "col \<noteq> []" "list_all is_word col"
    and ws: "list_all is_space w1" "list_all is_space w2"
    and body: "body \<noteq> []" "list_all list_char body" "\<not> is_space (hd body)" "\<not> is_space (last body)"
  shows "parse_condition P df (col @ w1 @ ''='' @ w2 @ body) = include_list df col body"
proof -
  let ?s = "col @ w1 @ ''='' @ w2 @ body"
  have st: "strip ?s = ?s"
    using cond_strip[OF col body(1,4), of "w1 @ ''='' @ w2"] by simp
  have dn: "\<not> is_word CHR ''=''" "\<not> is_space CHR ''=''" "CHR ''='' \<noteq> CHR ''!''"
    by (simp_all add: is_word_def is_space_def)
  have "re_match rx_exclude (col @ w1 @ CHR ''='' # (w2 @ body)) = None"
    by (rule rx_exclude_none_op[OF col ws(1) dn])
  then have ex: "re_match rx_exclude ?s = None" by simp
  have inc: "re_match rx_include ?s = Some [col, body]"
    by (rule rx_include_match[OF col ws body(1-3)])
  show ?thesis
    unfolding parse_condition_def st Let_def ex inc by simp
qed

lemma parse_as_exclude:
  assumes col: "col \<noteq> []" "list_all is_word col"
    and ws: "list_all is_space w1" "list_all is_space w2"
    and body: "body \<noteq> []" "list_all list_char body" "\<not> is_space (hd body)" "\<not> is_space (last body)"
  shows "parse_condition P df (col @ w1 @ ''!='' @ w2 @ body) = exclude_list df col body"
proof -
  let ?s = "col @ w1 @ ''!='' @ w2 @ body"
  have st: "strip ?s = ?s"
    using cond_strip[OF col body(1,4), of "w1 @ ''!='' @ w2"] by simp
  have ex: "re_match rx_exclude ?s = Some [col, body]"
    by (rule rx_exclude_match[OF col ws body(1-3)])
  show ?thesis
    unfolding parse_condition_def st Let_def ex by simp
qed

lemma getitem_Some: "map_of (df_columns df) col = Some vs \<Longrightarrow> getitem df col = Some (zip (df_index df) vs)"
  by (simp add: getitem_def)

lemma smap_length [simp]: "length (smap f s) = length s"
  by (simp add: smap_def)

lemma smap_zip_nth:
  assumes "i < length idx" "length vs = length idx"
  shows "smap f (zip idx vs) ! i = (idx ! i, f (vs ! i))"
  using assms by (simp add: smap_def)

lemma smap_labels [simp]: "map fst (smap f s) = map fst s"
  by (simp add: smap_def case_prod_unfold comp_def)

lemma coerce_missing_isin: "coerce P c = Missing \<Longrightarrow> \<not> cell_isin vl c"
  by (cases c) (auto split: option.splits)

lemma to_numeric_length [simp]: "length (to_numeric P vs) = length vs"
  by (simp add: to_numeric_def)

lemma to_numeric_missing:
  assumes "i < length vs" "coerce P (vs ! i) = Missing"
  shows "to_numeric P vs ! i = Missing"
proof -
  have "\<not> is_boolean (vs ! i)" using assms(2) by (cases "vs ! i") auto
  then have "\<not> list_all is_boolean vs" using assms(1) by (auto simp: list_all_length)
  then show ?thesis using assms by (simp add: to_numeric_def)
qed

lemma num_test_missing [simp]: "num_test p Missing = False"
  by (simp add: num_test_def)

lemma space_not_num: "is_space c \<Longrightarrow> \<not> num_char c"
  using num_not_space by blast

lemma range_text_head:
  assumes "list_all num_char lo" "list_all is_space w1"
  shows "\<exists>d t. dropWhile is_space (dropWhile is_word (lo @ w1 @ CHR ''<'' # rest)) = d # t \<and>
           (d = CHR ''.'' \<or> d = CHR ''<'')"
  using assms(1)
proof (induction lo)
  case Nil
  have nw: "\<not> is_word CHR ''<''" and ns: "\<not> is_space CHR ''<''"
    by (simp_all add: is_word_def is_space_def)
  have "dropWhile is_word (w1 @ CHR ''<'' # rest) = w1 @ CHR ''<'' # rest"
    using block2[of is_word "[]" is_space w1 "CHR ''<''" rest] assms(2) nw word_not_space by auto
  then show ?case using block1[OF assms(2) ns, of rest] by simp
next
  case (Cons c lo)
  show ?case
  proof (cases "is_word c")
    case True
    then show ?thesis using Cons by simp
  next
    case False
    then have "c = CHR ''.''" using Cons.prems num_word_or_dot by auto
    moreover have "\<not> is_space CHR ''.''" by (simp add: is_space_def)
    ultimately show ?thesis using False by simp
  qed
qed

lemma rx_include_none_range:
  assumes "list_all num_char lo" "list_all is_space w1"
  shows "re_match rx_include (lo @ w1 @ CHR ''<'' # rest) = None"
proof -
  let ?s = "lo @ w1 @ CHR ''<'' # rest"
  obtain d t where r: "dropWhile is_space (dropWhile is_word ?s) = d # t" "d = CHR ''.'' \<or> d = CHR ''<''"
    using range_text_head[OF assms] by blast
  have "re_match rx_include ?s =
      (if takeWhile is_word ?s = [] then None
       else map_option (\<lambda>gs. takeWhile is_word ?s # gs)
             (re_match [(False, Lit ''=''), (False, Rep [ASpace] 0),
                 (True, Rep [ADigit, AChar CHR ''.'', AChar CHR '','', AChar CHR '' ''] 1)]
                (dropWhile is_space (dropWhile is_word ?s))))"
    unfolding rx_include_def by (rule head_word_space) (rule lit_fails_on_word_space, simp_all)
  then show ?thesis unfolding r(1) re_match_Lit using r(2) by (auto simp: starts_with_def)
qed

lemma greedy_skip:
  assumes "list_all is_space w" "\<not> is_space d" "re_match ps (d # r) = Some gs"
  shows "re_match ((False, Rep [ASpace] 0) # ps) (w @ d # r) = Some gs"
proof -
  have "dropWhile (in_class [ASpace]) (w @ d # r) = d # r"
    using block1[OF assms(1,2)] by simp
  then have "re_match ps (dropWhile (in_class [ASpace]) (w @ d # r)) = Some gs"
    using assms(3) by simp
  from re_match_Rep_greedy[OF _ this, of 0 False] show ?thesis by simp
qed

lemma greedy_group:
  assumes "xs \<noteq> []" "list_all (in_class as) xs" "list_all is_space w" "\<not> in_class as d"
    "\<And>c. is_space c \<Longrightarrow> \<not> in_class as c"
    "re_match ps (w @ d # r) = Some gs"
  shows "re_match ((True, Rep as 1) # ps) (xs @ w @ d # r) = Some (xs # gs)"
proof -
  have b: "takeWhile (in_class as) (xs @ w @ d # r) = xs \<and>
           dropWhile (in_class as) (xs @ w @ d # r) = w @ d # r"
    by (rule block2[OF assms(2,3) assms(5) assms(4)])
  have l: "1 \<le> length (takeWhile (in_class as) (xs @ w @ d # r))"
    using b assms(1) by (cases xs) auto
  have "re_match ps (dropWhile (in_class as) (xs @ w @ d # r)) = Some gs"
    using b assms(6) by simp
  from re_match_Rep_greedy[OF l this, of True] show ?thesis using b by simp
qed

lemma rx_range_match:
  assumes lo: "lo \<noteq> []" "list_all num_char lo"
    and hi: "hi \<noteq> []" "list_all num_char hi"
    and col: "col \<noteq> []" "list_all is_word col"
    and ws: "list_all is_space w1" "list_all is_space w2" "list_all is_space w3" "list_all is_space w4"
  shows "re_match rx_range (lo @ w1 @ ''<='' @ w2 @ col @ w3 @ ''<='' @ w4 @ hi) = Some [lo, col, hi]"
proof -
  let ?num = "[ADigit, AChar CHR ''.'']"
  have nl: "\<not> is_space CHR ''<''" "\<not> is_word CHR ''<''" "\<not> num_char CHR ''<''"
    by (simp_all add: is_space_def is_word_def num_char_def is_digit_def)
  obtain c cs where c: "col = c # cs" using col(1) by (cases col) auto
  have cw: "\<not> is_space c" using col(2) c word_not_space by simp
  have nsp: "\<not> is_space (hd hi)" using hi by (cases hi) (auto simp: num_not_space)
  have t9: "re_match [(False, Rep [ASpace] 0), (True, Rep ?num 1)] (w4 @ hi) = Some [hi]"
    by (rule tail_match[OF ws(4) hi(1) _ nsp]) (use hi(2) in simp)
  have t7: "re_match [(False, Lit ''<=''), (False, Rep [ASpace] 0), (True, Rep ?num 1)]
              (CHR ''<'' # CHR ''='' # w4 @ hi) = Some [hi]"
    unfolding re_match_Lit using t9 by (simp add: starts_with_def)
  have t6: "re_match [(False, Rep [ASpace] 0), (False, Lit ''<=''), (False, Rep [ASpace] 0),
              (True, Rep ?num 1)] (w3 @ CHR ''<'' # CHR ''='' # w4 @ hi) = Some [hi]"
    by (rule greedy_skip[OF ws(3) nl(1) t7])
  have t5: "re_match [(True, Rep [AWord] 1), (False, Rep [ASpace] 0), (False, Lit ''<=''),
              (False, Rep [ASpace] 0), (True, Rep ?num 1)]
              (col @ w3 @ CHR ''<'' # CHR ''='' # w4 @ hi) = Some [col, hi]"
    by (rule greedy_group[OF col(1) _ ws(3) _ _ t6]) (use col(2) nl(2) word_not_space in auto)
  have t4: "re_match [(False, Rep [ASpace] 0), (True, Rep [AWord] 1), (False, Rep [ASpace] 0),
              (False, Lit ''<=''), (False, Rep [ASpace] 0), (True, Rep ?num 1)]
              (w2 @ c # (cs @ w3 @ CHR ''<'' # CHR ''='' # w4 @ hi)) = Some [col, hi]"
    by (rule greedy_skip[OF ws(2) cw]) (use t5 c in simp)
  have t3: "re_match [(False, Lit ''<=''), (False, Rep [ASpace] 0), (True, Rep [AWord] 1),
              (False, Rep [ASpace] 0), (False, Lit ''<=''), (False, Rep [ASpace] 0), (True, Rep ?num 1)]
              (CHR ''<'' # CHR ''='' # w2 @ col @ w3 @ CHR ''<'' # CHR ''='' # w4 @ hi) = Some [col, hi]"
    unfolding re_match_Lit using t4 c by (simp add: starts_with_def)
  have t2: "re_match [(False, Rep [ASpace] 0), (False, Lit ''<=''), (False, Rep [ASpace] 0),
              (True, Rep [AWord] 1), (False, Rep [ASpace] 0), (False, Lit ''<=''),
              (False, Rep [ASpace] 0), (True, Rep ?num 1)]
              (w1 @ CHR ''<'' # (CHR ''='' # w2 @ col @ w3 @ CHR ''<'' # CHR ''='' # w4 @ hi)) = Some [col, hi]"
    by (rule greedy_skip[OF ws(1) nl(1) t3])
  have t1: "re_match rx_range
              (lo @ w1 @ CHR ''<'' # (CHR ''='' # w2 @ col @ w3 @ CHR ''<'' # CHR ''='' # w4 @ hi))
            = Some [lo, col, hi]"
    unfolding rx_range_def
    by (rule greedy_group[OF lo(1) _ ws(1) _ _ t2]) (use lo(2) nl(3) space_not_num in auto)
  then show ?thesis by simp
qed

section \<open>The claims\<close>

text \<open>
  C8. With a blank filter text (empty or only whitespace) and no boolean-like column,
  and so no boolean-column spec, the Apply button binds the result to a copy of the
  uploaded frame: the same labels, the same columns, the same rows in the same order.
\<close>

theorem C8_blank_filter_returns_dataset:
  assumes "strip filter_input = []" and "bool_cols (h ! r) = []"
  shows "\<exists>a h'. apply_filters P h r filter_input bool_filters = (Inr a, h') \<and> h' ! a = h ! r"
  using assms by (simp add: apply_filters_def)

theorem C8_blank_filter_witness:
  "strip ''  '' = [] \<and> bool_cols ([herd] ! 0) = [] \<and>
   (\<exists>a h'. apply_filters herd_pd [herd] 0 ''  '' [] = (Inr a, h') \<and> h' ! a = [herd] ! 0)"
proof -
  have a: "strip ''  '' = []" by code_simp
  have b: "bool_cols ([herd] ! 0) = []" by code_simp
  show ?thesis
    using a b C8_blank_filter_returns_dataset[OF a b, of herd_pd "[]"] by simp
qed

text \<open>
  C3, as the code has it. For a comparison \<open>col op value\<close> with a plain number as value,
  no error is raised, and a row whose cell fails the numeric coercion is False in the
  mask for \<open>>=\<close>, \<open><=\<close>, \<open>>\<close>, \<open><\<close> and \<open>=\<close>, and True for \<open>!=\<close>: the text
  \<open>col != value\<close> is taken by the exclusion list, whose mask is the negation of \<open>isin\<close>.
\<close>

theorem C3_comparison_on_uncoercible_row:
  assumes col: "col \<noteq> []" "list_all is_word col"
    and ws: "list_all is_space w1" "list_all is_space w2"
    and val: "list_all num_char val" "py_float val = Some v"
    and op: "op = ''>='' \<or> op = ''<='' \<or> op = ''>'' \<or> op = ''<'' \<or> op = ''='' \<or> op = ''!=''"
    and column: "map_of (df_columns df) col = Some vs" "length vs = nrows df"
    and row: "i < nrows df" "coerce P (vs ! i) = Missing"
  shows "\<exists>m df'. parse_condition P df (col @ w1 @ op @ w2 @ val) = (Inr m, df') \<and>
           length m = nrows df \<and> snd (m ! i) = (op = ''!='')"
proof -
  have ne: "val \<noteq> []" using val(2) by (rule py_float_nonempty)
  have lc: "list_all list_char val"
    using val(1) by (auto simp: list_all_iff num_char_def list_char_def)
  have hs: "\<not> is_space (hd val)" using ne val(1) by (cases val) (auto simp: num_not_space)
  have ls: "\<not> is_space (last val)" by (rule num_last_not_space[OF ne val(1)])
  have fl: "float_list val = Some [v]" by (rule float_list_single[OF val])
  have gi: "getitem df col = Some (zip (df_index df) vs)" by (rule getitem_Some[OF column(1)])
  have len: "length vs = length (df_index df)" "i < length (df_index df)"
    using column(2) row(1) by (simp_all add: nrows_def)
  have isin: "\<not> cell_isin [v] (vs ! i)" by (rule coerce_missing_isin[OF row(2)])
  consider (ord) "op = ''>'' \<or> op = ''<'' \<or> op = ''>='' \<or> op = ''<=''"
    | (eq) "op = ''=''" | (ne) "op = ''!=''"
    using op by blast
  then show ?thesis
  proof cases
    case ord
    have p: "parse_condition P df (col @ w1 @ op @ w2 @ val) =
               compare_condition P df (col @ w1 @ op @ w2 @ val) col op val"
      by (rule parse_as_compare[OF col ws ne val(1) ord])
    have tn: "to_numeric P vs ! i = Missing"
      using to_numeric_missing[OF _ row(2)] len by simp
    have nth: "snd (smap (num_test q) (zip (df_index df) (to_numeric P vs)) ! i) = False" for q
      using smap_zip_nth[of i "df_index df" "to_numeric P vs" "num_test q"] len tn by simp
    have neq: "op \<noteq> ''!=''" using ord by auto
    show ?thesis
      unfolding p compare_condition_def coerce_column_def Let_def
      using ord val(2) column(1) nth neq len
      by (auto simp: nrows_def)
  next
    case eq
    have p: "parse_condition P df (col @ w1 @ op @ w2 @ val) = include_list df col val"
      unfolding eq by (rule parse_as_include[OF col ws ne lc hs ls])
    show ?thesis
      unfolding p include_list_def gi fl
      using smap_zip_nth[of i "df_index df" vs "cell_isin [v]"] len isin eq
      by (simp add: nrows_def)
  next
    case ne
    have p: "parse_condition P df (col @ w1 @ op @ w2 @ val) = exclude_list df col val"
      unfolding ne by (rule parse_as_exclude[OF col ws \<open>val \<noteq> []\<close> lc hs ls])
    have "smap Not (smap (cell_isin [v]) (zip (df_index df) vs)) ! i = (df_index df ! i, True)"
      using smap_zip_nth[of i "df_index df" vs "cell_isin [v]"] len isin
      by (simp add: smap_def)
    then show ?thesis
      unfolding p exclude_list_def gi fl series_not_def
      using len ne by (simp add: nrows_def)
  qed
qed

theorem C3_comparison_witness:
  "py_float ''5'' = Some 5 \<and> map_of (df_columns herd) ''Breed'' = Some [Text ''Holstein'', Text ''Jersey'', Missing] \<and>
   coerce herd_pd ([Text ''Holstein'', Text ''Jersey'', Missing] ! 0) = Missing \<and>
   (\<exists>m df'. parse_condition herd_pd herd (''Breed'' @ '' '' @ ''!='' @ '' '' @ ''5'') = (Inr m, df') \<and>
           length m = nrows herd \<and> snd (m ! 0) = (''!='' = ''!=''))"
proof -
  have a: "py_float ''5'' = Some 5" by code_simp
  have b: "map_of (df_columns herd) ''Breed'' = Some [Text ''Holstein'', Text ''Jersey'', Missing]"
    by code_simp
  have c: "coerce herd_pd ([Text ''Holstein'', Text ''Jersey'', Missing] ! 0) = Missing" by code_simp
  have d: "list_all is_word ''Breed''" "list_all is_space '' ''" "list_all num_char ''5''" by code_simp+
  have e: "length [Text ''Holstein'', Text ''Jersey'', Missing] = nrows herd" "0 < nrows herd" by code_simp+
  show ?thesis
    using a b c
      C3_comparison_on_uncoercible_row[of "''Breed''" "'' ''" "'' ''" "''5''" 5 "''!=''" herd
        "[Text ''Holstein'', Text ''Jersey'', Missing]" 0 herd_pd, OF _ d(1) d(2) d(2) d(3) a _ b e c]
    by simp
qed

text \<open>
  C3 as stated fails: the text cell \<open>Holstein\<close> fails the numeric coercion, and the mask
  of \<open>Breed != 5\<close> is True at its row.
\<close>

theorem C3_not_equal_counterexample:
  "coerce herd_pd (Text ''Holstein'') = Missing \<and>
   fst (parse_condition herd_pd herd ''Breed != 5'') = Inr [(0, True), (1, True), (2, True)]"
  by code_simp

text \<open>
  C2, as the code has it. For a list of plain numbers and an existing column, the masks of
  \<open>col = v1,...,vk\<close> and \<open>col != v1,...,vk\<close> are exact complements on every row: the
  second is the negation of the first, no error is raised and the frame is not changed.
  No numeric coercion takes place: a row whose cell fails the coercion is False in the
  \<open>=\<close> mask and True in the \<open>!=\<close> mask.
\<close>

theorem C2_list_masks_complementary:
  assumes col: "col \<noteq> []" "list_all is_word col"
    and ws: "list_all is_space w1" "list_all is_space w2"
    and body: "body \<noteq> []" "list_all list_char body" "\<not> is_space (hd body)"
      "\<not> is_space (last body)" "float_list body = Some vl"
    and column: "map_of (df_columns df) col = Some vs" "length vs = nrows df"
  shows "\<exists>m. parse_condition P df (col @ w1 @ ''='' @ w2 @ body) = (Inr m, df) \<and>
             parse_condition P df (col @ w1 @ ''!='' @ w2 @ body) = (Inr (series_not m), df) \<and>
             length m = nrows df \<and> map fst (series_not m) = map fst m \<and>
             (\<forall>i < nrows df. snd (series_not m ! i) = (\<not> snd (m ! i)) \<and>
                 (coerce P (vs ! i) = Missing \<longrightarrow> \<not> snd (m ! i) \<and> snd (series_not m ! i)))"
proof -
  define m where "m = smap (cell_isin vl) (zip (df_index df) vs)"
  have gi: "getitem df col = Some (zip (df_index df) vs)" by (rule getitem_Some[OF column(1)])
  have len: "length vs = length (df_index df)" using column(2) by (simp add: nrows_def)
  have p1: "parse_condition P df (col @ w1 @ ''='' @ w2 @ body) = (Inr m, df)"
    unfolding parse_as_include[OF col ws body(1-4)] include_list_def gi m_def using body(5) by simp
  have p2: "parse_condition P df (col @ w1 @ ''!='' @ w2 @ body) = (Inr (series_not m), df)"
    unfolding parse_as_exclude[OF col ws body(1-4)] exclude_list_def gi m_def using body(5) by simp
  have l: "length m = nrows df" unfolding m_def using len by (simp add: nrows_def)
  have lab: "map fst (series_not m) = map fst m" unfolding series_not_def by simp
  have rows: "snd (series_not m ! i) = (\<not> snd (m ! i)) \<and>
                 (coerce P (vs ! i) = Missing \<longrightarrow> \<not> snd (m ! i) \<and> snd (series_not m ! i))"
    if i: "i < nrows df" for i
  proof -
    have i': "i < length (df_index df)" using i by (simp add: nrows_def)
    have mi: "m ! i = (df_index df ! i, cell_isin vl (vs ! i))"
      unfolding m_def by (rule smap_zip_nth[OF i' len])
    have "i < length m" using l i by simp
    then have ni: "series_not m ! i = (df_index df ! i, \<not> cell_isin vl (vs ! i))"
      unfolding series_not_def smap_def using mi by simp
    show ?thesis using mi ni coerce_missing_isin[of P "vs ! i" vl] by auto
  qed
  show ?thesis using p1 p2 l lab rows by blast
qed

theorem C2_list_masks_witness:
  "float_list ''40, 50'' = Some [40, 50] \<and>
   map_of (df_columns herd) ''DIM'' = Some [Number 40, Number 80, Number 50] \<and>
   (\<exists>m. parse_condition herd_pd herd (''DIM'' @ '' '' @ ''='' @ '' '' @ ''40, 50'') = (Inr m, herd) \<and>
        parse_condition herd_pd herd (''DIM'' @ '' '' @ ''!='' @ '' '' @ ''40, 50'') = (Inr (series_not m), herd) \<and>
        length m = nrows herd)"
proof -
  have a: "float_list ''40, 50'' = Some [40, 50]" by code_simp
  have b: "map_of (df_columns herd) ''DIM'' = Some [Number 40, Number 80, Number 50]"
    by code_simp
  have d: "list_all is_word ''DIM''" "list_all is_space '' ''" "list_all list_char ''40, 50''"
    "\<not> is_space (hd ''40, 50'')" "\<not> is_space (last ''40, 50'')"
    "length [Number 40, Number 80, Number 50] = nrows herd" by code_simp+
  have "\<exists>m. parse_condition herd_pd herd (''DIM'' @ '' '' @ ''='' @ '' '' @ ''40, 50'') = (Inr m, herd) \<and>
        parse_condition herd_pd herd (''DIM'' @ '' '' @ ''!='' @ '' '' @ ''40, 50'') = (Inr (series_not m), herd) \<and>
        length m = nrows herd"
    using C2_list_masks_complementary[of "''DIM''" "'' ''" "'' ''" "''40, 50''" "[40, 50]" herd
        "[Number 40, Number 80, Number 50]" herd_pd, OF _ d(1) d(2) d(2) _ d(3) d(4) d(5) a b d(6)]
    by blast
  then show ?thesis using a b by blast
qed

text \<open>
  C2 as stated fails: the text cell \<open>Holstein\<close> fails the numeric coercion, and its row
  is True in the mask of \<open>Breed != 1,2,3\<close>, not False in both masks.
\<close>

theorem C2_uncoercible_row_counterexample:
  "coerce herd_pd (Text ''Holstein'') = Missing \<and>
   fst (parse_condition herd_pd herd ''Breed != 1,2,3'') = Inr [(0, True), (1, True), (2, True)] \<and>
   fst (parse_condition herd_pd herd ''Breed = 1,2,3'') = Inr [(0, False), (1, False), (2, False)]"
  by code_simp

end
